theory Spec2Isabelle
  imports Main
begin

section \<open>Role resolution and the admin access mixins (core/mixins.py)\<close>

text \<open>
  Python strings are modelled as \<open>string\<close>, read as a list of code points below 256.
  The request carries a user; the mixins read three things of it: whether it is
  authenticated, whether it is staff, and its \<open>role\<close> attribute (\<open>getattr(user, 'role', None)\<close>,
  so a user object without the attribute gives \<open>None\<close>).
\<close>

record request_user =
  is_authenticated :: bool
  is_staff :: bool
  role :: "string option"

text \<open>\<open>BaseAccessMixin.get_user_role\<close>.\<close>

definition get_user_role :: "request_user \<Rightarrow> string option" where
  "get_user_role u =
     (if \<not> is_authenticated u \<or> \<not> is_staff u then None else role u)"

text \<open>
  \<open>BaseAccessMixin._has_role_permission\<close>: \<open>role in allowed_roles if role else False\<close>.
  A role that is \<open>None\<close> or the empty string is false in Python.
\<close>

definition has_role_permission :: "request_user \<Rightarrow> string list \<Rightarrow> bool" where
  "has_role_permission u allowed_roles =
     (case get_user_role u of
        None \<Rightarrow> False
      | Some r \<Rightarrow> (if r \<noteq> [] then r \<in> set allowed_roles else False))"

datatype operation = View | Add | Change | Delete

text \<open>
  The five permission mixins. Each has \<open>has_module_permission\<close> and the four
  \<open>has_*_permission\<close> methods; the methods are rendered as one function of the operation.
\<close>

definition AdminOnly_has_module_permission :: "request_user \<Rightarrow> bool" where
  "AdminOnly_has_module_permission u = has_role_permission u [''admin'']"

fun AdminOnly_has_permission :: "operation \<Rightarrow> request_user \<Rightarrow> bool" where
  "AdminOnly_has_permission View u = AdminOnly_has_module_permission u"
| "AdminOnly_has_permission Add u = AdminOnly_has_module_permission u"
| "AdminOnly_has_permission Change u = AdminOnly_has_module_permission u"
| "AdminOnly_has_permission Delete u = AdminOnly_has_module_permission u"

definition ContentManager_has_module_permission :: "request_user \<Rightarrow> bool" where
  "ContentManager_has_module_permission u =
     has_role_permission u [''admin'', ''content_manager'']"

fun ContentManager_has_permission :: "operation \<Rightarrow> request_user \<Rightarrow> bool" where
  "ContentManager_has_permission View u = ContentManager_has_module_permission u"
| "ContentManager_has_permission Add u = ContentManager_has_module_permission u"
| "ContentManager_has_permission Change u = ContentManager_has_module_permission u"
| "ContentManager_has_permission Delete u = ContentManager_has_module_permission u"

definition ApplicationsCRM_has_module_permission :: "request_user \<Rightarrow> bool" where
  "ApplicationsCRM_has_module_permission u =
     has_role_permission u [''admin'', ''crm_manager'']"

fun ApplicationsCRM_has_permission :: "operation \<Rightarrow> request_user \<Rightarrow> bool" where
  "ApplicationsCRM_has_permission View u = ApplicationsCRM_has_module_permission u"
| "ApplicationsCRM_has_permission Add u = ApplicationsCRM_has_module_permission u"
| "ApplicationsCRM_has_permission Change u = ApplicationsCRM_has_module_permission u"
| "ApplicationsCRM_has_permission Delete u = ApplicationsCRM_has_module_permission u"

definition SiteSettings_has_module_permission :: "request_user \<Rightarrow> bool" where
  "SiteSettings_has_module_permission u =
     has_role_permission u [''admin'', ''content_manager'']"

fun SiteSettings_has_permission :: "operation \<Rightarrow> request_user \<Rightarrow> bool" where
  "SiteSettings_has_permission View u = SiteSettings_has_module_permission u"
| "SiteSettings_has_permission Add u = False"
| "SiteSettings_has_permission Change u = SiteSettings_has_module_permission u"
| "SiteSettings_has_permission Delete u = False"

definition History_has_module_permission :: "request_user \<Rightarrow> bool" where
  "History_has_module_permission u = has_role_permission u [''admin'']"

fun History_has_permission :: "operation \<Rightarrow> request_user \<Rightarrow> bool" where
  "History_has_permission View u = History_has_module_permission u"
| "History_has_permission Add u = False"
| "History_has_permission Change u = False"
| "History_has_permission Delete u = History_has_module_permission u"

text \<open>
  The resource categories of the policy table, each served by the mixin its admin
  classes inherit: users by \<open>AdminOnlyAccessMixin\<close> (accounts/admin.py), the action
  history by \<open>HistoryAccessMixin\<close>, applications by \<open>ApplicationsCRMAccessMixin\<close>
  (applications/admin.py), content by \<open>ContentManagerAccessMixin\<close>, the site settings by
  \<open>SiteSettingsAccessMixin\<close> (core/admin.py).
\<close>

datatype category = Accounts | History | Applications | Content | Settings

fun can :: "request_user \<Rightarrow> category \<Rightarrow> operation \<Rightarrow> bool" where
  "can u Accounts op = AdminOnly_has_permission op u"
| "can u History op = History_has_permission op u"
| "can u Applications op = ApplicationsCRM_has_permission op u"
| "can u Content op = ContentManager_has_permission op u"
| "can u Settings op = SiteSettings_has_permission op u"

section \<open>Regular expressions as Python's \<open>re\<close> module matches them\<close>

text \<open>
  The validators call \<open>re.match\<close> with patterns of the form \<open>^R$\<close>. Whether such a call
  finds a match depends only on the language of \<open>R\<close>, so the patterns are values of a
  small regular-expression type and matching is by derivatives. A character class is
  the list of its characters.
\<close>

datatype rexp = Zero | One | Cls "char list" | Alt rexp rexp | Seq rexp rexp | Star rexp

fun nullable :: "rexp \<Rightarrow> bool" where
  "nullable Zero = False"
| "nullable One = True"
| "nullable (Cls cs) = False"
| "nullable (Alt r s) = (nullable r \<or> nullable s)"
| "nullable (Seq r s) = (nullable r \<and> nullable s)"
| "nullable (Star r) = True"

fun deriv :: "char \<Rightarrow> rexp \<Rightarrow> rexp" where
  "deriv c Zero = Zero"
| "deriv c One = Zero"
| "deriv c (Cls cs) = (if c \<in> set cs then One else Zero)"
| "deriv c (Alt r s) = Alt (deriv c r) (deriv c s)"
| "deriv c (Seq r s) =
     (if nullable r then Alt (Seq (deriv c r) s) (deriv c s) else Seq (deriv c r) s)"
| "deriv c (Star r) = Seq (deriv c r) (Star r)"

fun matches :: "rexp \<Rightarrow> string \<Rightarrow> bool" where
  "matches r [] = nullable r"
| "matches r (c # s) = matches (deriv c r) s"

text \<open>The operators of the pattern syntax: \<open>r?\<close>, \<open>r{n}\<close>, \<open>r+\<close>, a literal, a sequence.\<close>

definition opt :: "rexp \<Rightarrow> rexp" where
  "opt r = Alt One r"

fun rpt :: "nat \<Rightarrow> rexp \<Rightarrow> rexp" where
  "rpt 0 r = One"
| "rpt (Suc n) r = Seq r (rpt n r)"

definition plus1 :: "rexp \<Rightarrow> rexp" where
  "plus1 r = Seq r (Star r)"

fun lit :: "string \<Rightarrow> rexp" where
  "lit [] = One"
| "lit (c # s) = Seq (Cls [c]) (lit s)"

fun seq :: "rexp list \<Rightarrow> rexp" where
  "seq [] = One"
| "seq (r # rs) = Seq r (seq rs)"

text \<open>
  \<open>re.match('^R$', s)\<close> without flags: \<open>^\<close> holds at the start, and \<open>$\<close> holds at the
  end of the string and also just before a newline that is the last character.
\<close>

definition py_match :: "rexp \<Rightarrow> string \<Rightarrow> bool" where
  "py_match r s =
     (matches r s \<or> (s \<noteq> [] \<and> last s = CHR 0x0A \<and> matches r (butlast s)))"

text \<open>
  The classes \<open>\d\<close> and \<open>\s\<close> on code points below 256: the decimal digits are
  \<open>0\<close> to \<open>9\<close>; the whitespace characters are those of \<open>str.isspace\<close>.
\<close>

definition digit :: "char list" where
  "digit = ''0123456789''"

definition space :: "char list" where
  "space = [CHR 0x09, CHR 0x0A, CHR 0x0B, CHR 0x0C, CHR 0x0D, CHR 0x1C, CHR 0x1D,
            CHR 0x1E, CHR 0x1F, CHR '' '', CHR 0x85, CHR 0xA0]"

definition lower :: "char list" where
  "lower = ''abcdefghijklmnopqrstuvwxyz''"

definition upper :: "char list" where
  "upper = ''ABCDEFGHIJKLMNOPQRSTUVWXYZ''"

text \<open>
  The textbook language of a regular expression, used to state what the matcher
  accepts.
\<close>

definition conc :: "string set \<Rightarrow> string set \<Rightarrow> string set" where
  "conc A B = {u @ v | u v. u \<in> A \<and> v \<in> B}"

inductive_set star :: "string set \<Rightarrow> string set" for A :: "string set" where
  star_empty: "[] \<in> star A"
| star_step: "u \<in> A \<Longrightarrow> v \<in> star A \<Longrightarrow> u @ v \<in> star A"

fun lang :: "rexp \<Rightarrow> string set" where
  "lang Zero = {}"
| "lang One = {[]}"
| "lang (Cls cs) = {[c] | c. c \<in> set cs}"
| "lang (Alt r s) = lang r \<union> lang s"
| "lang (Seq r s) = conc (lang r) (lang s)"
| "lang (Star r) = star (lang r)"

section \<open>Validation errors, \<open>full_clean\<close> and the stored rows\<close>

text \<open>
  A \<open>ValidationError\<close> is its error dictionary: a list of entries, field name and message.
  An error raised with a plain message has the key \<open>__all__\<close>, as \<open>full_clean\<close> files it.
  Messages are named by what they report; \<open>Framework\<close> stands for a message of Django's
  own per-field validators.
\<close>

datatype message =
    ContactRequired
  | InvalidPhone
  | InvalidEmail
  | ActiveLimit nat nat
  | MeasurementUnitRequired
  | InvalidColor
  | ImageOneSection
  | FileOneSection
  | NameEmpty
  | UrlEmpty
  | InvalidUrl
  | IconTooLarge nat
  | Framework string

type_synonym error_dict = "(string \<times> message) list"

definition NON_FIELD_ERRORS :: string where
  "NON_FIELD_ERRORS = ''__all__''"

text \<open>
  \<open>Model.full_clean\<close> runs the per-field validation (\<open>clean_fields\<close>) and then the
  model's \<open>clean\<close>, also when a field has failed, and raises the merged errors. The
  per-field validation belongs to the framework: it is a parameter, the errors it
  reports for the instance.
\<close>

definition full_clean ::
  "('a \<Rightarrow> error_dict) \<Rightarrow> ('a \<Rightarrow> error_dict + 'a) \<Rightarrow> 'a \<Rightarrow> error_dict + 'a" where
  "full_clean clean_fields clean x =
     (case clean x of
        Inl e \<Rightarrow> Inl (clean_fields x @ e)
      | Inr x' \<Rightarrow> (if clean_fields x = [] then Inr x' else Inl (clean_fields x)))"

text \<open>
  A model instance has a primary key once it is stored. A table is its rows by key and
  the next key of its sequence.
\<close>

record model =
  pk :: "nat option"

record 'a store =
  rows :: "(nat \<times> 'a) list"
  next_pk :: nat

text \<open>Python truthiness of \<open>self.pk\<close>: \<open>None\<close> and \<open>0\<close> are false.\<close>

fun truthy_pk :: "nat option \<Rightarrow> bool" where
  "truthy_pk None = False"
| "truthy_pk (Some k) = (k \<noteq> 0)"

text \<open>
  \<open>models.Model.save\<close>, which every \<open>super().save()\<close> reaches and which a model without
  a \<open>save\<close> of its own inherits: an instance with a key updates its row, or is inserted
  under that key when no such row exists; an instance without a key is inserted under
  the next key. It validates nothing.
\<close>

definition Model_save ::
  "('m model_scheme) store \<Rightarrow> 'm model_scheme \<Rightarrow> ('m model_scheme) store \<times> 'm model_scheme" where
  "Model_save st x =
     (case pk x of
        Some k \<Rightarrow>
          if k \<in> fst ` set (rows st)
          then (st\<lparr>rows := map (\<lambda>(j, r). if j = k then (j, x) else (j, r)) (rows st)\<rparr>, x)
          else (st\<lparr>rows := rows st @ [(k, x)], next_pk := max (next_pk st) (Suc k)\<rparr>, x)
      | None \<Rightarrow>
          (let k = next_pk st; x' = x\<lparr>pk := Some k\<rparr>
           in (st\<lparr>rows := rows st @ [(k, x')], next_pk := Suc k\<rparr>, x')))"

section \<open>Applications (applications/models.py)\<close>

record application = model +
  name :: string
  phone :: string
  email :: string
  message :: string
  status :: string
  manager_comment :: string
  processed_at :: "nat option"

text \<open>\<open>re.sub(r'[^\d\+]', '', s)\<close>: every character that is neither a digit nor \<open>+\<close> goes.\<close>

definition strip_phone :: "string \<Rightarrow> string" where
  "strip_phone s = filter (\<lambda>c. c \<in> set digit \<or> c = CHR ''+'') s"

text \<open>
  The pattern of the three \<open>_validate_phone\<close> methods (accounts, applications, contacts):
  \<^verbatim>\<open>^(\+7|7|8)?[\s\-]?\(?[489][0-9]{2}\)?[\s\-]?[0-9]{3}[\s\-]?[0-9]{2}[\s\-]?[0-9]{2}$\<close>
\<close>

definition phone_regex :: rexp where
  "phone_regex = seq
     [opt (Alt (lit ''+7'') (Alt (lit ''7'') (lit ''8''))),
      opt (Cls (space @ ''-'')),
      opt (lit ''(''),
      Cls ''489'', rpt 2 (Cls ''0123456789''),
      opt (lit '')''),
      opt (Cls (space @ ''-'')),
      rpt 3 (Cls ''0123456789''),
      opt (Cls (space @ ''-'')),
      rpt 2 (Cls ''0123456789''),
      opt (Cls (space @ ''-'')),
      rpt 2 (Cls ''0123456789'')]"

text \<open>\<open>Application._validate_phone\<close>.\<close>

definition Application_validate_phone :: "application \<Rightarrow> error_dict + application" where
  "Application_validate_phone a =
     (let clean_phone = strip_phone (phone a)
      in if \<not> py_match phone_regex clean_phone then Inl [(''phone'', InvalidPhone)]
         else Inr (a\<lparr>phone := clean_phone\<rparr>))"

text \<open>
  The pattern of \<open>Application._validate_email\<close>:
  \<^verbatim>\<open>^[a-zA-Z0-9._%+-]+@[a-zA-Z0-9.-]+\.[a-zA-Z]{2,}$\<close>
\<close>

definition email_regex :: rexp where
  "email_regex = seq
     [plus1 (Cls (lower @ upper @ ''0123456789'' @ ''._%+-'')),
      lit ''@'',
      plus1 (Cls (lower @ upper @ ''0123456789'' @ ''.-'')),
      lit ''.'',
      Seq (rpt 2 (Cls (lower @ upper))) (Star (Cls (lower @ upper)))]"

definition Application_validate_email :: "application \<Rightarrow> error_dict + application" where
  "Application_validate_email a =
     (if \<not> py_match email_regex (email a) then Inl [(''email'', InvalidEmail)] else Inr a)"

text \<open>
  \<open>Application.clean\<close>. A raised \<open>ValidationError\<close> ends the method: the checks after it
  do not run.
\<close>

definition Application_clean :: "application \<Rightarrow> error_dict + application" where
  "Application_clean a =
     (if phone a = [] \<and> email a = [] then Inl [(NON_FIELD_ERRORS, ContactRequired)]
      else
        (case (if phone a \<noteq> [] then Application_validate_phone a else Inr a) of
           Inl e \<Rightarrow> Inl e
         | Inr a1 \<Rightarrow> (if email a1 \<noteq> [] then Application_validate_email a1 else Inr a1)))"

text \<open>
  What \<open>EmailService.send_application_notification\<close> can do to its caller: return a
  flag, or raise an exception (of class \<open>Exception\<close>).
\<close>

datatype send_outcome = Returned bool | Raised string

datatype log_entry = NotificationError "nat option" string

record save_result =
  stored :: "application store"
  saved :: application
  notifications :: "application list"
  error_log :: "log_entry list"

text \<open>
  \<open>Application.save\<close>. \<open>now\<close> is \<open>timezone.now()\<close>; \<open>send\<close> is the notification service,
  called with the saved instance. The result records the table after the save, the
  instance, the calls made to the service and the lines written to the error log.
\<close>

definition Application_save ::
  "(application \<Rightarrow> error_dict) \<Rightarrow> (application \<Rightarrow> send_outcome) \<Rightarrow> nat \<Rightarrow>
   application store \<Rightarrow> application \<Rightarrow> error_dict + save_result" where
  "Application_save clean_fields send now st a =
     (let is_new = \<not> truthy_pk (pk a);
          a1 = (if status a = ''processed'' \<and> processed_at a = None
                then a\<lparr>processed_at := Some now\<rparr>
                else if status a \<noteq> ''processed'' then a\<lparr>processed_at := None\<rparr>
                else a)
      in case full_clean clean_fields Application_clean a1 of
           Inl e \<Rightarrow> Inl e
         | Inr a2 \<Rightarrow>
             (let (st', a3) = Model_save st a2
              in if is_new
                 then (case send a3 of
                         Returned ok \<Rightarrow>
                           Inr \<lparr>stored = st', saved = a3, notifications = [a3],
                                error_log = []\<rparr>
                       | Raised e \<Rightarrow>
                           Inr \<lparr>stored = st', saved = a3, notifications = [a3],
                                error_log = [NotificationError (pk a3) e]\<rparr>)
                 else Inr \<lparr>stored = st', saved = a3, notifications = [],
                          error_log = []\<rparr>))"

text \<open>
  The constraints the field declarations of \<open>Application\<close> put on an instance:
  required fields, \<open>max_length\<close> of the \<open>CharField\<close>s and the choices of \<open>status\<close>.
  (The address check of \<open>EmailField\<close> is Django's and is not part of it.)
\<close>

definition STATUS_CHOICES :: "string list" where
  "STATUS_CHOICES = [''new'', ''in_progress'', ''processed'', ''rejected'']"

definition Application_declared_fields :: "application \<Rightarrow> error_dict" where
  "Application_declared_fields a =
     (if name a = [] \<or> 100 < length (name a) then [(''name'', Framework ''name'')] else []) @
     (if 20 < length (phone a) then [(''phone'', Framework ''max_length'')] else []) @
     (if message a = [] then [(''message'', Framework ''required'')] else []) @
     (if status a \<notin> set STATUS_CHOICES then [(''status'', Framework ''choices'')] else [])"

section \<open>Company phones and social networks (contacts/models.py)\<close>

text \<open>
  \<open>SortableModel\<close> and \<open>StatusModel\<close> of core/models.py, as the base records of the
  models that inherit them. Of each model the fields that a modelled method reads are
  kept.
\<close>

record sortable_model = model +
  order :: nat

record status_sortable_model = sortable_model +
  is_active :: bool

record contact_phone = status_sortable_model +
  number :: string

text \<open>\<open>Phone._validate_phone\<close>, \<open>Phone.clean\<close> and \<open>Phone.save\<close>.\<close>

definition Phone_validate_phone :: "contact_phone \<Rightarrow> error_dict + contact_phone" where
  "Phone_validate_phone p =
     (let clean_phone = strip_phone (number p)
      in if \<not> py_match phone_regex clean_phone then Inl [(''number'', InvalidPhone)]
         else Inr (p\<lparr>number := clean_phone\<rparr>))"

definition Phone_clean :: "contact_phone \<Rightarrow> error_dict + contact_phone" where
  "Phone_clean p = (if number p \<noteq> [] then Phone_validate_phone p else Inr p)"

definition Phone_save ::
  "(contact_phone \<Rightarrow> error_dict) \<Rightarrow> contact_phone store \<Rightarrow> contact_phone \<Rightarrow>
   error_dict + contact_phone store \<times> contact_phone" where
  "Phone_save clean_fields st p =
     (case full_clean clean_fields Phone_clean p of
        Inl e \<Rightarrow> Inl e
      | Inr p' \<Rightarrow> Inr (Model_save st p'))"

text \<open>\<open>str.strip()\<close>: whitespace goes from both ends.\<close>

definition py_strip :: "string \<Rightarrow> string" where
  "py_strip s =
     rev (dropWhile (\<lambda>c. c \<in> set space) (rev (dropWhile (\<lambda>c. c \<in> set space) s)))"

text \<open>
  The icon of a social network is an \<open>Image\<close> row: its key, and the size of its file
  when it has one. The field \<open>name\<close> of \<open>SocialMedia\<close> is written \<open>name'\<close>.
\<close>

record icon_ref =
  icon_pk :: "nat option"
  image_size :: "nat option"

record social_media = status_sortable_model +
  icon :: "icon_ref option"
  name' :: string
  url :: string

text \<open>
  \<open>SocialMedia._validate_icon_size\<close> and \<open>SocialMedia.clean\<close>. \<open>url_valid\<close> is Django's
  \<open>URLValidator\<close>; \<open>max_size\<close> is the setting \<open>SOCIAL_MEDIA_MAX_ICON_SIZE\<close>.
\<close>

definition SocialMedia_validate_icon_size ::
  "nat \<Rightarrow> icon_ref \<Rightarrow> social_media \<Rightarrow> error_dict + social_media" where
  "SocialMedia_validate_icon_size max_size i s =
     (case image_size i of
        Some n \<Rightarrow> (if max_size < n then Inl [(''icon'', IconTooLarge max_size)] else Inr s)
      | None \<Rightarrow> Inr s)"

definition SocialMedia_clean ::
  "(string \<Rightarrow> bool) \<Rightarrow> nat \<Rightarrow> social_media \<Rightarrow> error_dict + social_media" where
  "SocialMedia_clean url_valid max_size s =
     (if py_strip (name' s) = [] then Inl [(''name'', NameEmpty)]
      else if py_strip (url s) = [] then Inl [(''url'', UrlEmpty)]
      else if \<not> url_valid (url s) then Inl [(''url'', InvalidUrl)]
      else
        (case icon s of
           Some i \<Rightarrow>
             (if truthy_pk (icon_pk i) then SocialMedia_validate_icon_size max_size i s
              else Inr s)
         | None \<Rightarrow> Inr s))"

section \<open>Diagrams and their categories (business_analytics)\<close>

record diagram = status_sortable_model +
  title :: string
  chart_type :: string
  measurement_unit :: string

definition MAX_ACTIVE_DIAGRAMS :: nat where
  "MAX_ACTIVE_DIAGRAMS = 2"

text \<open>
  \<open>Diagram._validate_active_limit\<close>. \<open>active_qs\<close> is the active rows of the table,
  without the row of the instance's own key when the instance has one.
\<close>

definition active_qs :: "diagram store \<Rightarrow> diagram \<Rightarrow> (nat \<times> diagram) list" where
  "active_qs st d =
     (let qs = filter (\<lambda>(k, r). is_active r) (rows st)
      in if truthy_pk (pk d) then filter (\<lambda>(k, r). Some k \<noteq> pk d) qs else qs)"

definition Diagram_validate_active_limit ::
  "diagram store \<Rightarrow> diagram \<Rightarrow> error_dict + diagram" where
  "Diagram_validate_active_limit st d =
     (if is_active d
      then (if MAX_ACTIVE_DIAGRAMS \<le> length (active_qs st d)
            then Inl [(''is_active'',
                       ActiveLimit MAX_ACTIVE_DIAGRAMS (length (active_qs st d)))]
            else Inr d)
      else Inr d)"

definition Diagram_validate_measurement_unit :: "diagram \<Rightarrow> error_dict + diagram" where
  "Diagram_validate_measurement_unit d =
     (if measurement_unit d = [] \<or> py_strip (measurement_unit d) = []
      then Inl [(''measurement_unit'', MeasurementUnitRequired)]
      else Inr d)"

definition Diagram_clean :: "diagram store \<Rightarrow> diagram \<Rightarrow> error_dict + diagram" where
  "Diagram_clean st d =
     (case Diagram_validate_active_limit st d of
        Inl e \<Rightarrow> Inl e
      | Inr d1 \<Rightarrow> Diagram_validate_measurement_unit d1)"

text \<open>\<open>Diagram\<close> defines no \<open>save\<close>: \<open>Diagram.save\<close> is the inherited \<open>Model.save\<close>.\<close>

definition Diagram_save :: "diagram store \<Rightarrow> diagram \<Rightarrow> diagram store \<times> diagram" where
  "Diagram_save st d = Model_save st d"

text \<open>
  The writes of \<open>DiagramAdmin\<close> (business_analytics/admin.py). The change form validates
  its instance with \<open>full_clean\<close>, and a valid instance goes to \<open>save_model\<close>, which calls
  \<open>obj.save()\<close>; an invalid one shows its errors and nothing is written.
\<close>

definition DiagramAdmin_form_save ::
  "(diagram \<Rightarrow> error_dict) \<Rightarrow> diagram store \<Rightarrow> diagram \<Rightarrow>
   error_dict + diagram store \<times> diagram" where
  "DiagramAdmin_form_save clean_fields st d =
     (case full_clean clean_fields (Diagram_clean st) d of
        Inl e \<Rightarrow> Inl e
      | Inr d' \<Rightarrow> Inr (Diagram_save st d'))"

text \<open>
  The actions \<open>make_active\<close> and \<open>make_inactive\<close>. The queryset is the selected keys, in
  the order of the change list.
\<close>

definition queryset_rows :: "diagram store \<Rightarrow> nat list \<Rightarrow> diagram list" where
  "queryset_rows st queryset = List.map_filter (map_of (rows st)) queryset"

definition activate :: "diagram \<Rightarrow> diagram store \<Rightarrow> diagram store" where
  "activate d st = fst (Diagram_save st (d\<lparr>is_active := True\<rparr>))"

definition make_active :: "diagram store \<Rightarrow> nat list \<Rightarrow> diagram store" where
  "make_active st queryset =
     (let active_count = length (filter (\<lambda>(k, r). is_active r) (rows st))
      in if MAX_ACTIVE_DIAGRAMS \<le> active_count then st
         else
           (let available_slots = MAX_ACTIVE_DIAGRAMS - active_count;
                inactive_diagrams = filter (\<lambda>r. \<not> is_active r) (queryset_rows st queryset);
                to_activate = take available_slots inactive_diagrams
            in fold activate to_activate st))"

definition make_inactive :: "diagram store \<Rightarrow> nat list \<Rightarrow> diagram store" where
  "make_inactive st queryset =
     st\<lparr>rows := map (\<lambda>(k, r). if k \<in> set queryset \<and> is_active r
                                then (k, r\<lparr>is_active := False\<rparr>) else (k, r)) (rows st)\<rparr>"

datatype admin_write =
    FormSave diagram
  | MakeActive "nat list"
  | MakeInactive "nat list"

fun admin_step ::
  "(diagram \<Rightarrow> error_dict) \<Rightarrow> diagram store \<Rightarrow> admin_write \<Rightarrow> diagram store" where
  "admin_step clean_fields st (FormSave d) =
     (case DiagramAdmin_form_save clean_fields st d of
        Inl e \<Rightarrow> st
      | Inr (st', d') \<Rightarrow> st')"
| "admin_step clean_fields st (MakeActive queryset) = make_active st queryset"
| "admin_step clean_fields st (MakeInactive queryset) = make_inactive st queryset"

definition admin_run ::
  "(diagram \<Rightarrow> error_dict) \<Rightarrow> diagram store \<Rightarrow> admin_write list \<Rightarrow> diagram store" where
  "admin_run clean_fields st ws = foldl (admin_step clean_fields) st ws"

definition active_count :: "diagram store \<Rightarrow> nat" where
  "active_count st = length (filter (\<lambda>(k, r). is_active r) (rows st))"

text \<open>
  A table is well formed when its keys are distinct, lie below the next key of the
  sequence, and each row carries its own key.
\<close>

definition well_formed :: "('m model_scheme) store \<Rightarrow> bool" where
  "well_formed st =
     (distinct (map fst (rows st)) \<and>
      list_all (\<lambda>(k, r). k < next_pk st \<and> pk r = Some k) (rows st))"

record diagram_category = sortable_model +
  diagram_id :: nat
  color :: string

text \<open>The pattern of \<open>DiagramCategory._validate_color\<close>: \<^verbatim>\<open>^#([A-Fa-f0-9]{6}|[A-Fa-f0-9]{3})$\<close>\<close>

definition hex :: "char list" where
  "hex = ''ABCDEF'' @ ''abcdef'' @ ''0123456789''"

definition color_pattern :: rexp where
  "color_pattern = Seq (lit ''#'') (Alt (rpt 6 (Cls hex)) (rpt 3 (Cls hex)))"

text \<open>
  \<open>str.upper()\<close> on the characters that the pattern lets through: a lower-case letter
  becomes its capital, every other character of these stays.
\<close>

definition to_upper :: "char \<Rightarrow> char" where
  "to_upper c = (case map_of (zip lower upper) c of Some u \<Rightarrow> u | None \<Rightarrow> c)"

text \<open>\<open>DiagramCategory._validate_color\<close>, \<open>DiagramCategory.clean\<close>, \<open>DiagramCategory.save\<close>.\<close>

definition DiagramCategory_validate_color ::
  "diagram_category \<Rightarrow> error_dict + diagram_category" where
  "DiagramCategory_validate_color c =
     (if \<not> py_match color_pattern (color c) then Inl [(''color'', InvalidColor)]
      else
        (let c1 = (if length (color c) = 4
                   then c\<lparr>color := [CHR ''#'', color c ! 1, color c ! 1, color c ! 2,
                                     color c ! 2, color c ! 3, color c ! 3]\<rparr>
                   else c)
         in Inr (c1\<lparr>color := map to_upper (color c1)\<rparr>)))"

definition DiagramCategory_clean :: "diagram_category \<Rightarrow> error_dict + diagram_category" where
  "DiagramCategory_clean c = DiagramCategory_validate_color c"

definition DiagramCategory_save ::
  "(diagram_category \<Rightarrow> error_dict) \<Rightarrow> diagram_category store \<Rightarrow> diagram_category \<Rightarrow>
   error_dict + diagram_category store \<times> diagram_category" where
  "DiagramCategory_save clean_fields st c =
     (case full_clean clean_fields DiagramCategory_clean c of
        Inl e \<Rightarrow> Inl e
      | Inr c' \<Rightarrow> Inr (Model_save st c'))"

text \<open>The declaration \<open>color = CharField(max_length=7)\<close>: required, at most 7 characters.\<close>

definition DiagramCategory_declared_fields :: "diagram_category \<Rightarrow> error_dict" where
  "DiagramCategory_declared_fields c =
     (if color c = [] then [(''color'', Framework ''required'')]
      else if 7 < length (color c) then [(''color'', Framework ''max_length'')]
      else [])"

text \<open>What the specification says of a stored colour: \<open>#\<close> and six upper-case hex digits.\<close>

definition six_digit_upper_hex :: "string \<Rightarrow> bool" where
  "six_digit_upper_hex s =
     (length s = 7 \<and> hd s = CHR ''#'' \<and> list_all (\<lambda>c. c \<in> set ''0123456789ABCDEF'') (tl s))"

section \<open>Section images and files (dynamic_pages/models.py)\<close>

text \<open>
  \<open>SectionImage\<close> and \<open>SectionFile\<close> declare the same three nullable parents; the record
  \<open>section_media\<close> holds them for both. A parent is the key of the section.
\<close>

record section_media = sortable_model +
  about_section :: "nat option"
  service_section :: "nat option"
  document_section :: "nat option"

record section_image = section_media +
  image :: nat

record section_file = section_media +
  file_id :: nat

text \<open>\<open>SectionImage.clean\<close> and \<open>SectionFile.clean\<close>.\<close>

definition SectionImage_clean :: "section_image \<Rightarrow> error_dict + section_image" where
  "SectionImage_clean x =
     (let sections = [about_section x, service_section x, document_section x];
          filled_sections = filter (\<lambda>s. s \<noteq> None) sections
      in if length filled_sections \<noteq> 1 then Inl [(NON_FIELD_ERRORS, ImageOneSection)]
         else Inr x)"

definition SectionFile_clean :: "section_file \<Rightarrow> error_dict + section_file" where
  "SectionFile_clean x =
     (let sections = [about_section x, service_section x, document_section x];
          filled_sections = filter (\<lambda>s. s \<noteq> None) sections
      in if length filled_sections \<noteq> 1 then Inl [(NON_FIELD_ERRORS, FileOneSection)]
         else Inr x)"

text \<open>
  Neither model defines \<open>save\<close>: both inherit \<open>Model.save\<close>. The inline forms of the
  section admins validate an instance with \<open>full_clean\<close> before they save it.
\<close>

definition SectionImage_save ::
  "section_image store \<Rightarrow> section_image \<Rightarrow> section_image store \<times> section_image" where
  "SectionImage_save st x = Model_save st x"

definition SectionFile_save ::
  "section_file store \<Rightarrow> section_file \<Rightarrow> section_file store \<times> section_file" where
  "SectionFile_save st x = Model_save st x"

definition SectionImage_form_save ::
  "(section_image \<Rightarrow> error_dict) \<Rightarrow> section_image store \<Rightarrow> section_image \<Rightarrow>
   error_dict + section_image store \<times> section_image" where
  "SectionImage_form_save clean_fields st x =
     (case full_clean clean_fields SectionImage_clean x of
        Inl e \<Rightarrow> Inl e
      | Inr x' \<Rightarrow> Inr (SectionImage_save st x'))"

definition SectionFile_form_save ::
  "(section_file \<Rightarrow> error_dict) \<Rightarrow> section_file store \<Rightarrow> section_file \<Rightarrow>
   error_dict + section_file store \<times> section_file" where
  "SectionFile_form_save clean_fields st x =
     (case full_clean clean_fields SectionFile_clean x of
        Inl e \<Rightarrow> Inl e
      | Inr x' \<Rightarrow> Inr (SectionFile_save st x'))"

definition parents_set :: "'a section_media_scheme \<Rightarrow> nat" where
  "parents_set x =
     length (filter (\<lambda>s. s \<noteq> None) [about_section x, service_section x, document_section x])"

section \<open>Example inputs\<close>

definition crm_user :: request_user where
  "crm_user = \<lparr>is_authenticated = True, is_staff = True, role = Some ''crm_manager''\<rparr>"

definition content_user :: request_user where
  "content_user =
     \<lparr>is_authenticated = True, is_staff = True, role = Some ''content_manager''\<rparr>"

definition admin_user :: request_user where
  "admin_user = \<lparr>is_authenticated = True, is_staff = True, role = Some ''admin''\<rparr>"

definition non_staff_user :: request_user where
  "non_staff_user = \<lparr>is_authenticated = True, is_staff = False, role = Some ''admin''\<rparr>"

definition two_active :: "diagram store" where
  "two_active =
     \<lparr>rows =
        [(1, \<lparr>pk = Some 1, order = 0, is_active = True, title = ''Cargo'',
               chart_type = ''column'', measurement_unit = ''t''\<rparr>),
         (2, \<lparr>pk = Some 2, order = 1, is_active = True, title = ''Fleet'',
               chart_type = ''pie'', measurement_unit = ''%''\<rparr>),
         (3, \<lparr>pk = Some 3, order = 2, is_active = False, title = ''Routes'',
               chart_type = ''pie'', measurement_unit = ''km''\<rparr>)],
      next_pk = 4\<rparr>"

definition third_diagram :: diagram where
  "third_diagram =
     \<lparr>pk = None, order = 3, is_active = True, title = ''Staff'',
      chart_type = ''column'', measurement_unit = ''pers.''\<rparr>"

definition routes_activated :: diagram where
  "routes_activated =
     \<lparr>pk = Some 3, order = 2, is_active = True, title = ''Routes'',
      chart_type = ''pie'', measurement_unit = ''km''\<rparr>"

definition routes_inactive :: diagram where
  "routes_inactive =
     \<lparr>pk = Some 3, order = 2, is_active = False, title = ''Routes'',
      chart_type = ''pie'', measurement_unit = ''km''\<rparr>"

definition no_field_errors :: "'a \<Rightarrow> error_dict" where
  "no_field_errors x = []"

definition empty_images :: "section_image store" where
  "empty_images = \<lparr>rows = [], next_pk = 1\<rparr>"

definition empty_files :: "section_file store" where
  "empty_files = \<lparr>rows = [], next_pk = 1\<rparr>"

definition orphan_image :: section_image where
  "orphan_image =
     \<lparr>pk = None, order = 0, about_section = None, service_section = None,
      document_section = None, image = 7\<rparr>"

definition two_parent_file :: section_file where
  "two_parent_file =
     \<lparr>pk = None, order = 0, about_section = Some 1, service_section = Some 2,
      document_section = None, file_id = 7\<rparr>"

definition about_image :: section_image where
  "about_image =
     \<lparr>pk = None, order = 0, about_section = Some 1, service_section = None,
      document_section = None, image = 7\<rparr>"

definition document_file :: section_file where
  "document_file =
     \<lparr>pk = None, order = 0, about_section = None, service_section = None,
      document_section = Some 4, file_id = 9\<rparr>"

definition one_parent_rows :: "('a section_media_scheme) store \<Rightarrow> bool" where
  "one_parent_rows st = list_all (\<lambda>(k, r). parents_set r = 1) (rows st)"

text \<open>
  What the specification says of an accepted phone: digits, with at most a leading
  \<open>+\<close>; eleven digits of which the first is 7 or 8, or ten digits.
\<close>

definition russian_phone_format :: "string \<Rightarrow> bool" where
  "russian_phone_format s =
     (let ds = (case s of [] \<Rightarrow> s | c # t \<Rightarrow> if c = CHR ''+'' then t else s)
      in list_all (\<lambda>c. c \<in> set ''0123456789'') ds \<and>
         (length ds = 10 \<or>
          (length ds = 11 \<and> (hd ds = CHR ''7'' \<or> hd ds = CHR ''8''))))"

definition office_phone :: contact_phone where
  "office_phone =
     \<lparr>pk = None, order = 0, is_active = True, number = ''+7 (999) 123-45-67''\<rparr>"

definition empty_phones :: "contact_phone store" where
  "empty_phones = \<lparr>rows = [], next_pk = 1\<rparr>"

definition inquiry :: application where
  "inquiry =
     \<lparr>pk = None, name = ''Ivan'', phone = ''8 (912) 345-67-89'',
      email = ''client@example.com'', message = ''Need a quote'', status = ''processed'',
      manager_comment = [], processed_at = None\<rparr>"

definition empty_applications :: "application store" where
  "empty_applications = \<lparr>rows = [], next_pk = 1\<rparr>"

definition inquiry_normalised :: application where
  "inquiry_normalised = inquiry\<lparr>phone := ''89123456789''\<rparr>"

definition office_phone_normalised :: contact_phone where
  "office_phone_normalised = office_phone\<lparr>number := ''+79991234567''\<rparr>"

definition office_phone_saved :: contact_phone where
  "office_phone_saved = office_phone\<lparr>pk := Some 1, number := ''+79991234567''\<rparr>"

definition phones_after_save :: "contact_phone store" where
  "phones_after_save = \<lparr>rows = [(1, office_phone_saved)], next_pk = 2\<rparr>"

section \<open>Access decisions\<close>

lemma has_role_permission_Some:
  "get_user_role u = Some r \<Longrightarrow> has_role_permission u rs = (r \<noteq> [] \<and> r \<in> set rs)"
  by (simp add: has_role_permission_def)

lemma has_role_permission_None:
  "get_user_role u = None \<Longrightarrow> has_role_permission u rs = False"
  by (simp add: has_role_permission_def)

lemma crm_manager_row:
  assumes "get_user_role u = Some ''crm_manager''"
  shows "\<not> can u Content op" and "can u Applications op"
proof -
  from assms have c: "\<not> ContentManager_has_module_permission u"
    by (simp add: ContentManager_has_module_permission_def has_role_permission_Some)
  from assms have a: "ApplicationsCRM_has_module_permission u"
    by (simp add: ApplicationsCRM_has_module_permission_def has_role_permission_Some)
  show "\<not> can u Content op" using c by (cases op) simp_all
  show "can u Applications op" using a by (cases op) simp_all
qed

lemma content_manager_row:
  assumes "get_user_role u = Some ''content_manager''"
  shows "\<not> can u Applications op"
proof -
  from assms have "\<not> ApplicationsCRM_has_module_permission u"
    by (simp add: ApplicationsCRM_has_module_permission_def has_role_permission_Some)
  then show ?thesis by (cases op) simp_all
qed

lemma no_role_row:
  assumes "get_user_role u = None"
  shows "\<not> can u cat op"
proof -
  have "\<not> has_role_permission u rs" for rs
    using assms by (simp add: has_role_permission_None)
  then show ?thesis
    by (cases cat; cases op)
       (simp_all add: AdminOnly_has_module_permission_def History_has_module_permission_def
          ApplicationsCRM_has_module_permission_def ContentManager_has_module_permission_def
          SiteSettings_has_module_permission_def)
qed

text \<open>
  C1. For every operation: a principal whose resolved role is \<open>crm_manager\<close> is denied on
  content and allowed on applications; one whose resolved role is \<open>content_manager\<close> is
  denied on applications; one whose resolved role is \<open>None\<close> (not authenticated, or not
  staff) is denied on every category.
\<close>

theorem access_decision_table:
  "(get_user_role u1 = Some ''crm_manager'' \<longrightarrow>
      \<not> can u1 Content op \<and> can u1 Applications op) \<and>
   (get_user_role u2 = Some ''content_manager'' \<longrightarrow> \<not> can u2 Applications op) \<and>
   (get_user_role u3 = None \<longrightarrow> \<not> can u3 cat op)"
  using crm_manager_row content_manager_row no_role_row by blast

theorem access_decision_table_witness:
  "get_user_role crm_user = Some ''crm_manager'' \<and>
   \<not> can crm_user Content Delete \<and> can crm_user Applications Delete \<and>
   get_user_role content_user = Some ''content_manager'' \<and>
   \<not> can content_user Applications Delete \<and>
   get_user_role non_staff_user = None \<and> \<not> can non_staff_user Accounts Delete"
proof -
  have r1: "get_user_role crm_user = Some ''crm_manager''"
    by (simp add: get_user_role_def crm_user_def)
  have r2: "get_user_role content_user = Some ''content_manager''"
    by (simp add: get_user_role_def content_user_def)
  have r3: "get_user_role non_staff_user = None"
    by (simp add: get_user_role_def non_staff_user_def)
  from access_decision_table [of crm_user Delete content_user non_staff_user Accounts] r1 r2 r3
  show ?thesis by simp
qed

lemma settings_module_permission:
  "SiteSettings_has_module_permission u =
     (get_user_role u = Some ''admin'' \<or> get_user_role u = Some ''content_manager'')"
  by (cases "get_user_role u")
     (auto simp: SiteSettings_has_module_permission_def has_role_permission_def)

text \<open>
  C9. On the site settings, add and delete are denied to every principal, whatever its
  role (and whether or not an instance exists); view and change are allowed exactly to
  the resolved roles \<open>admin\<close> and \<open>content_manager\<close>.
\<close>

theorem site_settings_singleton_access:
  "can u Settings Add = False \<and> can u Settings Delete = False \<and>
   can u Settings View =
     (get_user_role u = Some ''admin'' \<or> get_user_role u = Some ''content_manager'') \<and>
   can u Settings Change =
     (get_user_role u = Some ''admin'' \<or> get_user_role u = Some ''content_manager'')"
  by (simp add: settings_module_permission)

theorem site_settings_singleton_access_witness:
  "can admin_user Settings Add = False \<and> can admin_user Settings Delete = False \<and>
   can admin_user Settings View = True \<and> can admin_user Settings Change = True \<and>
   can crm_user Settings View = False \<and> can crm_user Settings Change = False"
  using site_settings_singleton_access [of admin_user]
    site_settings_singleton_access [of crm_user]
  by (simp add: get_user_role_def admin_user_def crm_user_def)

section \<open>Stored rows and the activation limit of diagrams\<close>

lemma replace_absent:
  "k \<notin> fst ` set rs \<Longrightarrow> map (\<lambda>(j, r). if j = k then (j, x) else (j, r)) rs = rs"
  by (induction rs) auto

lemma filter_absent:
  "k \<notin> fst ` set rs \<Longrightarrow>
   filter (\<lambda>(j, r). P r \<and> j \<noteq> k) rs = filter (\<lambda>(j, r). P r) rs"
  by (induction rs) auto

lemma count_replace:
  assumes "distinct (map fst rs)" and "k \<in> fst ` set rs"
  shows "length (filter (\<lambda>(j, r). P r) (map (\<lambda>(j, r). if j = k then (j, x) else (j, r)) rs)) =
         length (filter (\<lambda>(j, r). P r \<and> j \<noteq> k) rs) + (if P x then 1 else 0)"
  using assms
proof (induction rs)
  case Nil
  then show ?case by simp
next
  case (Cons a rs)
  obtain j0 r0 where a: "a = (j0, r0)" by (cases a)
  show ?case
  proof (cases "j0 = k")
    case True
    with Cons.prems a have "k \<notin> fst ` set rs" by auto
    then show ?thesis
      using a True by (simp add: replace_absent filter_absent)
  next
    case False
    with Cons.prems a have "k \<in> fst ` set rs" "distinct (map fst rs)" by auto
    from Cons.IH [OF this(2) this(1)] show ?thesis
      using a False by simp
  qed
qed

lemma well_formed_keys_below:
  "well_formed st \<Longrightarrow> k \<in> fst ` set (rows st) \<Longrightarrow> k < next_pk st"
  by (auto simp: well_formed_def list_all_iff)

lemma fst_replace:
  "map fst (map (\<lambda>(j, r). if j = k then (j, x) else (j, r)) rs) = map fst rs"
  by (induction rs) auto

lemma well_formed_Model_save:
  assumes "well_formed st"
  shows "well_formed (fst (Model_save st x))"
proof (cases "pk x")
  case None
  have "next_pk st \<notin> fst ` set (rows st)"
    using well_formed_keys_below [OF assms] by blast
  with assms None show ?thesis
    by (auto simp: Model_save_def well_formed_def Let_def list_all_iff)
next
  case (Some k)
  show ?thesis
  proof (cases "k \<in> fst ` set (rows st)")
    case True
    let ?rs = "map (\<lambda>(j, r). if j = k then (j, x) else (j, r)) (rows st)"
    have "map fst ?rs = map fst (rows st)" by (rule fst_replace)
    with assms have d: "distinct (map fst ?rs)"
      by (simp only: well_formed_def)
    from assms Some have a: "list_all (\<lambda>(j, r). j < next_pk st \<and> pk r = Some j) ?rs"
      by (auto simp: well_formed_def list_all_iff split: if_splits)
    from Some True have "fst (Model_save st x) = st\<lparr>rows := ?rs\<rparr>"
      by (simp add: Model_save_def)
    with d a show ?thesis by (simp add: well_formed_def)
  next
    case False
    with assms Some show ?thesis
      by (auto simp: Model_save_def well_formed_def list_all_iff less_max_iff_disj)
  qed
qed

lemma active_count_Model_save:
  assumes "well_formed st"
  shows "active_count (fst (Model_save st d)) =
         length (filter (\<lambda>(k, r). is_active r \<and> Some k \<noteq> pk d) (rows st)) +
         (if is_active d then 1 else 0)"
proof (cases "pk d")
  case None
  then show ?thesis
    by (simp add: Model_save_def active_count_def Let_def)
next
  case (Some k)
  show ?thesis
  proof (cases "k \<in> fst ` set (rows st)")
    case True
    from assms have "distinct (map fst (rows st))" by (simp add: well_formed_def)
    from count_replace [OF this True, of is_active d] Some True show ?thesis
      by (simp add: Model_save_def active_count_def)
  next
    case False
    from filter_absent [OF False, of is_active] Some False show ?thesis
      by (simp add: Model_save_def active_count_def)
  qed
qed


lemma full_clean_Inr:
  "full_clean cf clean x = Inr y \<Longrightarrow> clean x = Inr y \<and> cf x = []"
  by (auto simp: full_clean_def split: sum.splits if_splits)

lemma full_clean_Inl:
  "clean x = Inl e \<Longrightarrow> full_clean cf clean x = Inl (cf x @ e)"
  by (simp add: full_clean_def)

lemma length_filter_conj_le:
  "length (filter (\<lambda>x. P x \<and> Q x) xs) \<le> length (filter P xs)"
  by (induction xs) auto

lemma length_filter_pair_le:
  "length (filter (\<lambda>(k, r). P r \<and> Q k) rs) \<le> length (filter (\<lambda>(k, r). P r) rs)"
  by (induction rs) auto

lemma others_le_active_count:
  "length (filter (\<lambda>(k, r). is_active r \<and> Some k \<noteq> pk d) (rows st)) \<le> active_count st"
  unfolding active_count_def by (rule length_filter_pair_le)

lemma others_le_active_qs:
  "length (filter (\<lambda>(k, r). is_active r \<and> Some k \<noteq> pk d) (rows st)) \<le>
   length (active_qs st d)"
proof (cases "truthy_pk (pk d)")
  case True
  have "filter (\<lambda>(k, r). Some k \<noteq> pk d) (filter (\<lambda>(k, r). is_active r) (rows st)) =
        filter (\<lambda>(k, r). is_active r \<and> Some k \<noteq> pk d) (rows st)"
    by (induction "rows st") (auto intro: filter_cong)
  with True show ?thesis by (simp add: active_qs_def)
next
  case False
  with others_le_active_count [of d st] show ?thesis
    by (simp add: active_qs_def active_count_def)
qed

lemma Diagram_clean_Inr:
  assumes "Diagram_clean st d = Inr d'"
  shows "d' = d" and "is_active d \<Longrightarrow> length (active_qs st d) < MAX_ACTIVE_DIAGRAMS"
  using assms
  by (auto simp: Diagram_clean_def Diagram_validate_active_limit_def
      Diagram_validate_measurement_unit_def split: sum.splits if_splits)

lemma Diagram_save_bound:
  assumes wf: "well_formed st"
    and lim: "is_active d \<Longrightarrow> length (active_qs st d) < MAX_ACTIVE_DIAGRAMS"
    and inv: "active_count st \<le> MAX_ACTIVE_DIAGRAMS"
  shows "active_count (fst (Diagram_save st d)) \<le> MAX_ACTIVE_DIAGRAMS"
proof (cases "is_active d")
  case True
  from lim [OF True] others_le_active_qs [of d st]
  have "length (filter (\<lambda>(k, r). is_active r \<and> Some k \<noteq> pk d) (rows st)) < MAX_ACTIVE_DIAGRAMS"
    by simp
  with True show ?thesis
    by (simp add: Diagram_save_def active_count_Model_save [OF wf])
next
  case False
  with others_le_active_count [of d st] inv show ?thesis
    by (simp add: Diagram_save_def active_count_Model_save [OF wf])
qed

lemma form_save_invariant:
  assumes "well_formed st" and "active_count st \<le> MAX_ACTIVE_DIAGRAMS"
  shows "well_formed (admin_step cf st (FormSave d)) \<and>
         active_count (admin_step cf st (FormSave d)) \<le> MAX_ACTIVE_DIAGRAMS"
proof (cases "full_clean cf (Diagram_clean st) d")
  case (Inl e)
  with assms show ?thesis by (simp add: DiagramAdmin_form_save_def)
next
  case (Inr d')
  from full_clean_Inr [OF Inr] have c: "Diagram_clean st d = Inr d'" by simp
  from Diagram_clean_Inr [OF c] have eq: "d' = d"
    and lim: "is_active d \<Longrightarrow> length (active_qs st d) < MAX_ACTIVE_DIAGRAMS" by simp_all
  have step: "admin_step cf st (FormSave d) = fst (Diagram_save st d)"
    using Inr eq by (simp add: DiagramAdmin_form_save_def split: prod.splits)
  from well_formed_Model_save [OF assms(1), of d] Diagram_save_bound [OF assms(1) lim assms(2)]
  show ?thesis unfolding step Diagram_save_def by simp
qed

lemma activate_step:
  assumes "well_formed st"
  shows "well_formed (activate d st)" and "active_count (activate d st) \<le> Suc (active_count st)"
proof -
  show "well_formed (activate d st)"
    using well_formed_Model_save [OF assms] by (simp add: activate_def Diagram_save_def)
  from others_le_active_count [of "d\<lparr>is_active := True\<rparr>" st]
  show "active_count (activate d st) \<le> Suc (active_count st)"
    by (simp add: activate_def Diagram_save_def active_count_Model_save [OF assms])
qed

lemma fold_activate:
  "well_formed st \<Longrightarrow>
   well_formed (fold activate ds st) \<and>
   active_count (fold activate ds st) \<le> active_count st + length ds"
proof (induction ds arbitrary: st)
  case Nil
  then show ?case by simp
next
  case (Cons d ds)
  from activate_step [OF Cons.prems, of d]
  have wf: "well_formed (activate d st)"
    and le: "active_count (activate d st) \<le> Suc (active_count st)" by simp_all
  from Cons.IH [OF wf] le show ?case by simp
qed

lemma make_active_invariant:
  assumes "well_formed st" and "active_count st \<le> MAX_ACTIVE_DIAGRAMS"
  shows "well_formed (make_active st qs) \<and> active_count (make_active st qs) \<le> MAX_ACTIVE_DIAGRAMS"
proof (cases "MAX_ACTIVE_DIAGRAMS \<le> active_count st")
  case True
  with assms show ?thesis by (simp add: make_active_def active_count_def)
next
  case False
  let ?ds = "take (MAX_ACTIVE_DIAGRAMS - active_count st)
               (filter (\<lambda>r. \<not> is_active r) (queryset_rows st qs))"
  from False have eq: "make_active st qs = fold activate ?ds st"
    by (simp add: make_active_def active_count_def Let_def)
  have "length ?ds \<le> MAX_ACTIVE_DIAGRAMS - active_count st" by simp
  with fold_activate [OF assms(1), of ?ds] False show ?thesis
    unfolding eq by linarith
qed

lemma make_inactive_invariant:
  assumes "well_formed st" and "active_count st \<le> MAX_ACTIVE_DIAGRAMS"
  shows "well_formed (make_inactive st qs) \<and>
         active_count (make_inactive st qs) \<le> MAX_ACTIVE_DIAGRAMS"
proof -
  let ?f = "\<lambda>(k, r). if k \<in> set qs \<and> is_active r then (k, r\<lparr>is_active := False\<rparr>) else (k, r)"
  have keys: "map fst (map ?f rs) = map fst rs" for rs :: "(nat \<times> diagram) list"
    by (induction rs) auto
  have cnt: "length (filter (\<lambda>(k, r). is_active r) (map ?f rs)) \<le>
             length (filter (\<lambda>(k, r). is_active r) rs)" for rs :: "(nat \<times> diagram) list"
    by (induction rs) auto
  from keys [of "rows st"] assms(1) have d: "distinct (map fst (map ?f (rows st)))"
    by (simp only: well_formed_def)
  from assms(1) have a: "list_all (\<lambda>(j, r). j < next_pk st \<and> pk r = Some j) (map ?f (rows st))"
    by (auto simp: well_formed_def list_all_iff split: if_splits)
  from d a have "well_formed (make_inactive st qs)"
    by (simp add: well_formed_def make_inactive_def)
  moreover from cnt [of "rows st"] assms(2)
  have "active_count (make_inactive st qs) \<le> MAX_ACTIVE_DIAGRAMS"
    by (simp add: active_count_def make_inactive_def)
  ultimately show ?thesis by simp
qed

lemma admin_step_invariant:
  assumes "well_formed st" and "active_count st \<le> MAX_ACTIVE_DIAGRAMS"
  shows "well_formed (admin_step cf st w) \<and>
         active_count (admin_step cf st w) \<le> MAX_ACTIVE_DIAGRAMS"
proof (cases w)
  case (FormSave d)
  with form_save_invariant [OF assms] show ?thesis by simp
next
  case (MakeActive qs)
  with make_active_invariant [OF assms] show ?thesis by simp
next
  case (MakeInactive qs)
  with make_inactive_invariant [OF assms] show ?thesis by simp
qed

lemma admin_run_invariant:
  "well_formed st \<Longrightarrow> active_count st \<le> MAX_ACTIVE_DIAGRAMS \<Longrightarrow>
   well_formed (admin_run cf st ws) \<and> active_count (admin_run cf st ws) \<le> MAX_ACTIVE_DIAGRAMS"
proof (induction ws arbitrary: st)
  case Nil
  then show ?case by (simp add: admin_run_def)
next
  case (Cons w ws)
  from admin_step_invariant [OF Cons.prems, of cf w]
  have "well_formed (admin_step cf st w)"
    and "active_count (admin_step cf st w) \<le> MAX_ACTIVE_DIAGRAMS" by simp_all
  from Cons.IH [OF this] show ?case by (simp add: admin_run_def)
qed

lemma well_formed_two_active: "well_formed two_active"
  by (simp add: well_formed_def two_active_def)

lemma active_count_two_active: "active_count two_active = 2"
  by (simp add: active_count_def two_active_def)

text \<open>
  C2, as stated, fails on \<open>Diagram.save\<close>: the model defines no \<open>save\<close>, so a direct
  save validates nothing. With two diagrams active, saving a third active one stores it:
  three are active.
\<close>

theorem diagram_save_unchecked_counterexample:
  "well_formed two_active \<and> active_count two_active = 2 \<and> is_active third_diagram \<and>
   active_count (fst (Diagram_save two_active third_diagram)) = 3 \<and>
   \<not> active_count (fst (Diagram_save two_active third_diagram)) \<le> MAX_ACTIVE_DIAGRAMS"
  by (simp add: well_formed_two_active active_count_two_active)
     (simp add: Diagram_save_def Model_save_def active_count_def two_active_def
        third_diagram_def MAX_ACTIVE_DIAGRAMS_def Let_def)

lemma active_limit_rejects:
  assumes "is_active d" and "MAX_ACTIVE_DIAGRAMS \<le> length (active_qs st d)"
  shows "DiagramAdmin_form_save cf st d =
           Inl (cf d @ [(''is_active'',
                 ActiveLimit MAX_ACTIVE_DIAGRAMS (length (active_qs st d)))])"
    and "admin_step cf st (FormSave d) = st"
proof -
  from assms have "Diagram_clean st d =
      Inl [(''is_active'', ActiveLimit MAX_ACTIVE_DIAGRAMS (length (active_qs st d)))]"
    by (simp add: Diagram_clean_def Diagram_validate_active_limit_def)
  from full_clean_Inl [where clean = "Diagram_clean st" and x = d and cf = cf, OF this]
  show "DiagramAdmin_form_save cf st d =
           Inl (cf d @ [(''is_active'',
                 ActiveLimit MAX_ACTIVE_DIAGRAMS (length (active_qs st d)))])"
    by (simp add: DiagramAdmin_form_save_def)
  then show "admin_step cf st (FormSave d) = st" by simp
qed

text \<open>
  C2, amended. Over any sequence of writes of the diagram admin (the change form, which
  runs \<open>clean\<close> before it saves, and the actions \<open>make_active\<close> and \<open>make_inactive\<close>),
  starting from a well-formed table with at most \<open>MAX_ACTIVE_DIAGRAMS\<close> active diagrams,
  the number of active diagrams never exceeds \<open>MAX_ACTIVE_DIAGRAMS\<close>. A form save of an
  active diagram while that many others are active is rejected with an error on
  \<open>is_active\<close>, and the table is unchanged.
\<close>

theorem diagram_active_limit_admin:
  "well_formed st \<Longrightarrow> active_count st \<le> MAX_ACTIVE_DIAGRAMS \<Longrightarrow>
   active_count (admin_run cf st ws) \<le> MAX_ACTIVE_DIAGRAMS \<and>
   (is_active d \<and> MAX_ACTIVE_DIAGRAMS \<le> length (active_qs st d) \<longrightarrow>
      DiagramAdmin_form_save cf st d =
        Inl (cf d @ [(''is_active'',
               ActiveLimit MAX_ACTIVE_DIAGRAMS (length (active_qs st d)))]) \<and>
      admin_step cf st (FormSave d) = st)"
  using admin_run_invariant [of st cf ws] active_limit_rejects [of d st cf] by blast

theorem diagram_active_limit_admin_witness:
  "well_formed two_active \<and> active_count two_active \<le> MAX_ACTIVE_DIAGRAMS \<and>
   is_active third_diagram \<and>
   MAX_ACTIVE_DIAGRAMS \<le> length (active_qs two_active third_diagram) \<and>
   active_count (admin_run no_field_errors two_active
       [FormSave third_diagram, MakeActive [3], FormSave routes_activated,
        MakeInactive [1], FormSave routes_activated]) \<le> MAX_ACTIVE_DIAGRAMS \<and>
   DiagramAdmin_form_save no_field_errors two_active third_diagram =
     Inl [(''is_active'', ActiveLimit 2 2)] \<and>
   admin_step no_field_errors two_active (FormSave third_diagram) = two_active"
proof -
  have h1: "well_formed two_active" by (rule well_formed_two_active)
  have h2: "active_count two_active \<le> MAX_ACTIVE_DIAGRAMS"
    by (simp add: active_count_two_active MAX_ACTIVE_DIAGRAMS_def)
  have h3: "is_active third_diagram" by (simp add: third_diagram_def)
  have h4: "length (active_qs two_active third_diagram) = 2"
    by (simp add: active_qs_def two_active_def third_diagram_def)
  from diagram_active_limit_admin [OF h1 h2, of no_field_errors
      "[FormSave third_diagram, MakeActive [3], FormSave routes_activated,
        MakeInactive [1], FormSave routes_activated]" third_diagram] h1 h2 h3 h4
  show ?thesis by (simp add: MAX_ACTIVE_DIAGRAMS_def no_field_errors_def)
qed

text \<open>
  C10. A diagram whose \<open>is_active\<close> is false passes the limit check whatever the table
  holds; the outcome of \<open>clean\<close> is then that of the measurement-unit check alone.
\<close>

theorem inactive_diagram_passes_limit:
  "\<not> is_active d \<Longrightarrow>
   Diagram_validate_active_limit st d = Inr d \<and>
   Diagram_clean st d = Diagram_validate_measurement_unit d"
  by (simp add: Diagram_validate_active_limit_def Diagram_clean_def)

theorem inactive_diagram_passes_limit_witness:
  "\<not> is_active routes_inactive \<and> active_count two_active = 2 \<and>
   Diagram_validate_active_limit two_active routes_inactive = Inr routes_inactive \<and>
   Diagram_clean two_active routes_inactive = Inr routes_inactive"
proof -
  have h: "\<not> is_active routes_inactive" by (simp add: routes_inactive_def)
  have m: "Diagram_validate_measurement_unit routes_inactive = Inr routes_inactive"
    by (simp add: Diagram_validate_measurement_unit_def routes_inactive_def py_strip_def
        space_def)
  from inactive_diagram_passes_limit [OF h, of two_active] h m active_count_two_active
  show ?thesis by simp
qed

section \<open>Parents of section images and files\<close>

lemma Model_save_rows:
  "(j, r) \<in> set (rows (fst (Model_save st x))) \<Longrightarrow>
   (j, r) \<in> set (rows st) \<or> r = snd (Model_save st x)"
  by (auto simp: Model_save_def Let_def split: option.splits if_splits)

lemma parents_set_pk_update: "parents_set (x\<lparr>pk := k\<rparr>) = parents_set x"
  by (simp add: parents_set_def)

lemma parents_set_Model_save: "parents_set (snd (Model_save st x)) = parents_set x"
  by (cases "pk x") (simp_all add: Model_save_def Let_def parents_set_pk_update)

lemma one_parent_rows_Model_save:
  assumes "one_parent_rows st" and "parents_set x = 1"
  shows "one_parent_rows (fst (Model_save st x))"
proof -
  have "parents_set r = 1" if "(j, r) \<in> set (rows (fst (Model_save st x)))" for j r
  proof -
    from Model_save_rows [OF that] show ?thesis
    proof
      assume "(j, r) \<in> set (rows st)"
      with assms(1) show ?thesis by (auto simp: one_parent_rows_def list_all_iff)
    next
      assume "r = snd (Model_save st x)"
      with assms(2) show ?thesis by (simp add: parents_set_Model_save)
    qed
  qed
  then show ?thesis by (auto simp: one_parent_rows_def list_all_iff)
qed

lemma SectionImage_clean_iff:
  "SectionImage_clean x =
     (if parents_set x = 1 then Inr x else Inl [(NON_FIELD_ERRORS, ImageOneSection)])"
  by (simp add: SectionImage_clean_def parents_set_def Let_def)

lemma SectionFile_clean_iff:
  "SectionFile_clean y =
     (if parents_set y = 1 then Inr y else Inl [(NON_FIELD_ERRORS, FileOneSection)])"
  by (simp add: SectionFile_clean_def parents_set_def Let_def)

lemma SectionImage_form_save_Inr:
  assumes "SectionImage_form_save cf st x = Inr (st', x')" and "one_parent_rows st"
  shows "parents_set x' = 1 \<and> one_parent_rows st'"
proof -
  from assms(1) obtain y where fc: "full_clean cf SectionImage_clean x = Inr y"
    and sv: "SectionImage_save st y = (st', x')"
    by (auto simp: SectionImage_form_save_def split: sum.splits)
  from full_clean_Inr [OF fc] have "SectionImage_clean x = Inr y" by simp
  then have y: "y = x" and p: "parents_set x = 1"
    by (auto simp: SectionImage_clean_iff split: if_splits)
  from sv y have st': "st' = fst (Model_save st x)" and x': "x' = snd (Model_save st x)"
    by (simp_all add: SectionImage_save_def)
  from one_parent_rows_Model_save [OF assms(2) p] p show ?thesis
    by (simp add: st' x' parents_set_Model_save)
qed

lemma SectionFile_form_save_Inr:
  assumes "SectionFile_form_save cf st x = Inr (st', x')" and "one_parent_rows st"
  shows "parents_set x' = 1 \<and> one_parent_rows st'"
proof -
  from assms(1) obtain y where fc: "full_clean cf SectionFile_clean x = Inr y"
    and sv: "SectionFile_save st y = (st', x')"
    by (auto simp: SectionFile_form_save_def split: sum.splits)
  from full_clean_Inr [OF fc] have "SectionFile_clean x = Inr y" by simp
  then have y: "y = x" and p: "parents_set x = 1"
    by (auto simp: SectionFile_clean_iff split: if_splits)
  from sv y have st': "st' = fst (Model_save st x)" and x': "x' = snd (Model_save st x)"
    by (simp_all add: SectionFile_save_def)
  from one_parent_rows_Model_save [OF assms(2) p] p show ?thesis
    by (simp add: st' x' parents_set_Model_save)
qed

text \<open>
  C7, as stated, fails on \<open>save\<close>: neither model defines one, so a direct save runs no
  check. An image with no parent and a file with two parents are both stored.
\<close>

theorem section_save_unchecked_counterexample:
  "parents_set orphan_image = 0 \<and>
   rows (fst (SectionImage_save empty_images orphan_image)) =
     [(1, orphan_image\<lparr>pk := Some 1\<rparr>)] \<and>
   parents_set two_parent_file = 2 \<and>
   rows (fst (SectionFile_save empty_files two_parent_file)) =
     [(1, two_parent_file\<lparr>pk := Some 1\<rparr>)]"
  by (simp add: parents_set_def orphan_image_def two_parent_file_def SectionImage_save_def
      SectionFile_save_def Model_save_def empty_images_def empty_files_def Let_def)

text \<open>
  C7, amended. \<open>clean\<close> of a section image or file accepts the instance when exactly one
  of its three parents is set and raises a validation error otherwise (none set, or two
  or more). A write that validates before it saves, as the inline forms of the section
  admins do, stores the instance only in the first case, so a table whose rows all have
  exactly one parent keeps that property.
\<close>

theorem section_media_exactly_one_parent:
  "SectionImage_clean x =
     (if parents_set x = 1 then Inr x else Inl [(NON_FIELD_ERRORS, ImageOneSection)]) \<and>
   SectionFile_clean y =
     (if parents_set y = 1 then Inr y else Inl [(NON_FIELD_ERRORS, FileOneSection)]) \<and>
   (SectionImage_form_save cf st x = Inr (st', x') \<and> one_parent_rows st \<longrightarrow>
      parents_set x = 1 \<and> parents_set x' = 1 \<and> one_parent_rows st') \<and>
   (SectionFile_form_save cg su y = Inr (su', y') \<and> one_parent_rows su \<longrightarrow>
      parents_set y = 1 \<and> parents_set y' = 1 \<and> one_parent_rows su')"
proof -
  have "parents_set x = 1" if "SectionImage_form_save cf st x = Inr (st', x')"
    using that full_clean_Inr [of cf SectionImage_clean x]
    by (auto simp: SectionImage_form_save_def SectionImage_clean_iff split: sum.splits if_splits)
  moreover have "parents_set y = 1" if "SectionFile_form_save cg su y = Inr (su', y')"
    using that full_clean_Inr [of cg SectionFile_clean y]
    by (auto simp: SectionFile_form_save_def SectionFile_clean_iff split: sum.splits if_splits)
  ultimately show ?thesis
    using SectionImage_clean_iff SectionFile_clean_iff SectionImage_form_save_Inr
      SectionFile_form_save_Inr by blast
qed

theorem section_media_exactly_one_parent_witness:
  "SectionImage_form_save no_field_errors empty_images about_image =
     Inr (\<lparr>rows = [(1, about_image\<lparr>pk := Some 1\<rparr>)], next_pk = 2\<rparr>,
          about_image\<lparr>pk := Some 1\<rparr>) \<and>
   one_parent_rows empty_images \<and>
   parents_set about_image = 1 \<and>
   one_parent_rows \<lparr>rows = [(1, about_image\<lparr>pk := Some 1\<rparr>)], next_pk = 2\<rparr> \<and>
   SectionFile_form_save no_field_errors empty_files document_file =
     Inr (\<lparr>rows = [(1, document_file\<lparr>pk := Some 1\<rparr>)], next_pk = 2\<rparr>,
          document_file\<lparr>pk := Some 1\<rparr>) \<and>
   one_parent_rows empty_files \<and>
   parents_set document_file = 1 \<and>
   one_parent_rows \<lparr>rows = [(1, document_file\<lparr>pk := Some 1\<rparr>)], next_pk = 2\<rparr> \<and>
   SectionImage_clean orphan_image = Inl [(NON_FIELD_ERRORS, ImageOneSection)] \<and>
   SectionFile_clean two_parent_file = Inl [(NON_FIELD_ERRORS, FileOneSection)]"
proof -
  have i: "SectionImage_form_save no_field_errors empty_images about_image =
     Inr (\<lparr>rows = [(1, about_image\<lparr>pk := Some 1\<rparr>)], next_pk = 2\<rparr>,
          about_image\<lparr>pk := Some 1\<rparr>)"
    by (simp add: SectionImage_form_save_def full_clean_def SectionImage_clean_def
        no_field_errors_def SectionImage_save_def Model_save_def empty_images_def
        about_image_def Let_def)
  have f: "SectionFile_form_save no_field_errors empty_files document_file =
     Inr (\<lparr>rows = [(1, document_file\<lparr>pk := Some 1\<rparr>)], next_pk = 2\<rparr>,
          document_file\<lparr>pk := Some 1\<rparr>)"
    by (simp add: SectionFile_form_save_def full_clean_def SectionFile_clean_def
        no_field_errors_def SectionFile_save_def Model_save_def empty_files_def
        document_file_def Let_def)
  have e: "one_parent_rows empty_images" "one_parent_rows empty_files"
    by (simp_all add: one_parent_rows_def empty_images_def empty_files_def)
  have p: "parents_set orphan_image \<noteq> 1" "parents_set two_parent_file \<noteq> 1"
    by (simp_all add: parents_set_def orphan_image_def two_parent_file_def)
  from section_media_exactly_one_parent [of about_image document_file no_field_errors
      empty_images _ _ no_field_errors empty_files] i f e
    section_media_exactly_one_parent [of orphan_image two_parent_file] p
  show ?thesis by simp
qed

section \<open>The matcher accepts the language of the expression\<close>

lemma nullable_iff: "nullable r \<longleftrightarrow> [] \<in> lang r"
proof (induction r)
  case (Seq r1 r2)
  then show ?case by (auto simp: conc_def)
next
  case (Star r)
  show ?case by (simp add: star.star_empty)
qed auto

lemma conc_Cons_iff:
  "c # s \<in> conc A B \<longleftrightarrow>
     (\<exists>u v. s = u @ v \<and> c # u \<in> A \<and> v \<in> B) \<or> ([] \<in> A \<and> c # s \<in> B)"
proof
  assume "c # s \<in> conc A B"
  then obtain u v where uv: "c # s = u @ v" "u \<in> A" "v \<in> B"
    by (auto simp: conc_def)
  show "(\<exists>u v. s = u @ v \<and> c # u \<in> A \<and> v \<in> B) \<or> ([] \<in> A \<and> c # s \<in> B)"
  proof (cases u)
    case Nil
    with uv show ?thesis by simp
  next
    case (Cons a u')
    with uv have "s = u' @ v" "c # u' \<in> A" by auto
    with uv show ?thesis by blast
  qed
next
  assume "(\<exists>u v. s = u @ v \<and> c # u \<in> A \<and> v \<in> B) \<or> ([] \<in> A \<and> c # s \<in> B)"
  then show "c # s \<in> conc A B"
  proof
    assume "\<exists>u v. s = u @ v \<and> c # u \<in> A \<and> v \<in> B"
    then obtain u v where "s = u @ v" "c # u \<in> A" "v \<in> B" by blast
    then have "c # s = (c # u) @ v" by simp
    with \<open>c # u \<in> A\<close> \<open>v \<in> B\<close> show ?thesis unfolding conc_def by blast
  next
    assume "[] \<in> A \<and> c # s \<in> B"
    then have "c # s = [] @ (c # s)" "[] \<in> A" "c # s \<in> B" by simp_all
    then show ?thesis unfolding conc_def by blast
  qed
qed

lemma star_Cons_split:
  assumes "w \<in> star A" and "w = c # s"
  shows "\<exists>u v. s = u @ v \<and> c # u \<in> A \<and> v \<in> star A"
  using assms
proof (induction arbitrary: s rule: star.induct)
  case star_empty
  then show ?case by simp
next
  case (star_step u v)
  show ?case
  proof (cases u)
    case Nil
    with star_step show ?thesis by simp
  next
    case (Cons a u')
    with star_step.prems have "s = u' @ v" "a = c" by auto
    with Cons star_step.hyps show ?thesis by blast
  qed
qed

lemma star_Cons_iff:
  "c # s \<in> star A \<longleftrightarrow> (\<exists>u v. s = u @ v \<and> c # u \<in> A \<and> v \<in> star A)"
proof
  assume "c # s \<in> star A"
  then show "\<exists>u v. s = u @ v \<and> c # u \<in> A \<and> v \<in> star A"
    by (rule star_Cons_split) simp
next
  assume "\<exists>u v. s = u @ v \<and> c # u \<in> A \<and> v \<in> star A"
  then obtain u v where "s = u @ v" "c # u \<in> A" "v \<in> star A" by blast
  from star.star_step [OF this(2) this(3)] \<open>s = u @ v\<close>
  show "c # s \<in> star A" by simp
qed

lemma lang_deriv: "s \<in> lang (deriv c r) \<longleftrightarrow> c # s \<in> lang r"
proof (induction r arbitrary: s)
  case (Seq r1 r2)
  then show ?case
    by (auto simp: conc_Cons_iff nullable_iff) (auto simp: conc_def)
next
  case (Star r)
  then show ?case
    by (auto simp: star_Cons_iff conc_def)
qed auto

lemma matches_iff_lang: "matches r s \<longleftrightarrow> s \<in> lang r"
  by (induction s arbitrary: r) (simp_all add: nullable_iff lang_deriv)

lemma lang_opt: "lang (opt r) = insert [] (lang r)"
  by (simp add: opt_def)

lemma conc_Nil_left: "conc {[]} B = B"
  by (auto simp: conc_def)

lemma lang_lit: "lang (lit w) = {w}"
  by (induction w) (auto simp: conc_def)

lemma in_conc_optD:
  "s \<in> conc (lang (opt r)) B \<Longrightarrow> s \<in> B \<or> s \<in> conc (lang r) B"
  by (auto simp: lang_opt conc_def)

lemma take_cls:
  assumes "s \<in> conc (lang (Cls cs)) B"
  obtains c t where "s = c # t" and "c \<in> set cs" and "t \<in> B"
  using assms by (auto simp: conc_def)

lemma skip_opt_cls:
  assumes "s \<in> conc (lang (opt (Cls cs))) B" and "set s \<inter> set cs = {}"
  shows "s \<in> B"
proof -
  from in_conc_optD [OF assms(1)] show ?thesis
  proof
    assume "s \<in> conc (lang (Cls cs)) B"
    then obtain c t where "s = c # t" "c \<in> set cs" by (rule take_cls)
    with assms(2) show ?thesis by auto
  qed
qed

lemma skip_opt_lit:
  assumes "s \<in> conc (lang (opt (lit [c]))) B" and "c \<notin> set s"
  shows "s \<in> B"
proof -
  from in_conc_optD [OF assms(1)] show ?thesis
  proof
    assume "s \<in> conc (lang (lit [c])) B"
    then obtain t where "s = c # t" by (auto simp: lang_lit conc_def)
    with assms(2) show ?thesis by simp
  qed
qed

lemma lang_rpt_cls:
  "u \<in> lang (rpt n (Cls cs)) \<Longrightarrow> length u = n \<and> set u \<subseteq> set cs"
proof (induction n arbitrary: u)
  case 0
  then show ?case by simp
next
  case (Suc n)
  from Suc.prems obtain c t where u: "u = c # t" and c: "c \<in> set cs"
    and t: "t \<in> lang (rpt n (Cls cs))"
    by (auto simp: conc_def)
  from Suc.IH [OF t] u c show ?case by simp
qed

lemma take_rpt:
  assumes "s \<in> conc (lang (rpt n (Cls cs))) B"
  obtains u t where "s = u @ t" and "length u = n" and "set u \<subseteq> set cs" and "t \<in> B"
proof -
  from assms obtain u t where "s = u @ t" "u \<in> lang (rpt n (Cls cs))" "t \<in> B"
    by (auto simp: conc_def)
  with lang_rpt_cls [of u n cs] that show thesis by blast
qed

section \<open>Phone numbers\<close>

lemma strip_phone_idem: "strip_phone (strip_phone s) = strip_phone s"
  by (simp add: strip_phone_def)

lemma strip_phone_chars: "set (strip_phone s) \<subseteq> set digit \<union> {CHR ''+''}"
  by (auto simp: strip_phone_def)

lemma kept_no_separator:
  assumes "set t \<subseteq> set digit \<union> {CHR ''+''}"
  shows "set t \<inter> set (space @ ''-'') = {}" and "CHR ''('' \<notin> set t" and "CHR '')'' \<notin> set t"
    and "t \<noteq> [] \<Longrightarrow> last t \<noteq> CHR 0x0A"
proof -
  have d: "c \<in> set digit \<union> {CHR ''+''} \<Longrightarrow>
           c \<notin> set (space @ ''-'') \<and> c \<noteq> CHR ''('' \<and> c \<noteq> CHR '')'' \<and> c \<noteq> CHR 0x0A" for c
    by (auto simp: digit_def space_def)
  from assms d show "set t \<inter> set (space @ ''-'') = {}" by blast
  from assms d show "CHR ''('' \<notin> set t" by blast
  from assms d show "CHR '')'' \<notin> set t" by blast
  show "last t \<noteq> CHR 0x0A" if "t \<noteq> []"
  proof -
    from that have "last t \<in> set t" by simp
    with assms d show ?thesis by blast
  qed
qed

lemma py_match_kept:
  assumes "set t \<subseteq> set digit \<union> {CHR ''+''}"
  shows "py_match r t = matches r t"
  using kept_no_separator(4) [OF assms] by (auto simp: py_match_def)

lemma take_prefix:
  assumes "s \<in> conc (lang (opt (Alt (lit ''+7'') (Alt (lit ''7'') (lit ''8''))))) B"
  obtains p t where "s = p @ t" and "p \<in> {[], ''+7'', ''7'', ''8''}" and "t \<in> B"
proof -
  have "lang (opt (Alt (lit ''+7'') (Alt (lit ''7'') (lit ''8'')))) = {[], ''+7'', ''7'', ''8''}"
    unfolding lang_opt lang.simps lang_lit by auto
  with assms obtain p t where "s = p @ t" "p \<in> {[], ''+7'', ''7'', ''8''}" "t \<in> B"
    unfolding conc_def by auto
  then show thesis by (rule that)
qed

lemma lang_seq_Cons: "lang (seq (r # rs)) = conc (lang r) (lang (seq rs))"
  by simp

lemma phone_shape:
  assumes m: "s \<in> lang phone_regex" and k: "set s \<subseteq> set digit \<union> {CHR ''+''}"
  shows "\<exists>p c ds. s = p @ c # ds \<and> p \<in> {[], ''+7'', ''7'', ''8''} \<and> c \<in> set ''489'' \<and>
                  length ds = 9 \<and> set ds \<subseteq> set ''0123456789''"
proof -
  let ?K = "set digit \<union> {CHR ''+''}"
  from m obtain p t0 where s: "s = p @ t0" and p: "p \<in> {[], ''+7'', ''7'', ''8''}"
    and t0: "t0 \<in> lang (seq
      [opt (Cls (space @ ''-'')), opt (lit ''(''), Cls ''489'', rpt 2 (Cls ''0123456789''),
       opt (lit '')''), opt (Cls (space @ ''-'')), rpt 3 (Cls ''0123456789''),
       opt (Cls (space @ ''-'')), rpt 2 (Cls ''0123456789''),
       opt (Cls (space @ ''-'')), rpt 2 (Cls ''0123456789'')])"
    unfolding phone_regex_def lang_seq_Cons by (rule take_prefix)
  from s k have k0: "set t0 \<subseteq> ?K" by auto
  from t0 have "t0 \<in> lang (seq
      [opt (lit ''(''), Cls ''489'', rpt 2 (Cls ''0123456789''),
       opt (lit '')''), opt (Cls (space @ ''-'')), rpt 3 (Cls ''0123456789''),
       opt (Cls (space @ ''-'')), rpt 2 (Cls ''0123456789''),
       opt (Cls (space @ ''-'')), rpt 2 (Cls ''0123456789'')])"
    unfolding lang_seq_Cons
    by (rule skip_opt_cls) (rule kept_no_separator(1) [OF k0])
  then have "t0 \<in> lang (seq
      [Cls ''489'', rpt 2 (Cls ''0123456789''),
       opt (lit '')''), opt (Cls (space @ ''-'')), rpt 3 (Cls ''0123456789''),
       opt (Cls (space @ ''-'')), rpt 2 (Cls ''0123456789''),
       opt (Cls (space @ ''-'')), rpt 2 (Cls ''0123456789'')])"
    unfolding lang_seq_Cons
    by (rule skip_opt_lit) (rule kept_no_separator(2) [OF k0])
  then obtain c t1 where t0': "t0 = c # t1" and c: "c \<in> set ''489''"
    and t1: "t1 \<in> lang (seq
      [rpt 2 (Cls ''0123456789''),
       opt (lit '')''), opt (Cls (space @ ''-'')), rpt 3 (Cls ''0123456789''),
       opt (Cls (space @ ''-'')), rpt 2 (Cls ''0123456789''),
       opt (Cls (space @ ''-'')), rpt 2 (Cls ''0123456789'')])"
    unfolding lang_seq_Cons by (rule take_cls)
  from t1 obtain u1 t2 where t1': "t1 = u1 @ t2" and u1: "length u1 = 2" "set u1 \<subseteq> set ''0123456789''"
    and t2: "t2 \<in> lang (seq
      [opt (lit '')''), opt (Cls (space @ ''-'')), rpt 3 (Cls ''0123456789''),
       opt (Cls (space @ ''-'')), rpt 2 (Cls ''0123456789''),
       opt (Cls (space @ ''-'')), rpt 2 (Cls ''0123456789'')])"
    unfolding lang_seq_Cons by (rule take_rpt)
  from k0 t0' t1' have k2: "set t2 \<subseteq> ?K" by auto
  from t2 have "t2 \<in> lang (seq
      [opt (Cls (space @ ''-'')), rpt 3 (Cls ''0123456789''),
       opt (Cls (space @ ''-'')), rpt 2 (Cls ''0123456789''),
       opt (Cls (space @ ''-'')), rpt 2 (Cls ''0123456789'')])"
    unfolding lang_seq_Cons
    by (rule skip_opt_lit) (rule kept_no_separator(3) [OF k2])
  then have "t2 \<in> lang (seq
      [rpt 3 (Cls ''0123456789''),
       opt (Cls (space @ ''-'')), rpt 2 (Cls ''0123456789''),
       opt (Cls (space @ ''-'')), rpt 2 (Cls ''0123456789'')])"
    unfolding lang_seq_Cons
    by (rule skip_opt_cls) (rule kept_no_separator(1) [OF k2])
  then obtain u2 t3 where t2': "t2 = u2 @ t3" and u2: "length u2 = 3" "set u2 \<subseteq> set ''0123456789''"
    and t3: "t3 \<in> lang (seq
      [opt (Cls (space @ ''-'')), rpt 2 (Cls ''0123456789''),
       opt (Cls (space @ ''-'')), rpt 2 (Cls ''0123456789'')])"
    unfolding lang_seq_Cons by (rule take_rpt)
  from k2 t2' have k3: "set t3 \<subseteq> ?K" by auto
  from t3 have "t3 \<in> lang (seq
      [rpt 2 (Cls ''0123456789''),
       opt (Cls (space @ ''-'')), rpt 2 (Cls ''0123456789'')])"
    unfolding lang_seq_Cons
    by (rule skip_opt_cls) (rule kept_no_separator(1) [OF k3])
  then obtain u3 t4 where t3': "t3 = u3 @ t4" and u3: "length u3 = 2" "set u3 \<subseteq> set ''0123456789''"
    and t4: "t4 \<in> lang (seq
      [opt (Cls (space @ ''-'')), rpt 2 (Cls ''0123456789'')])"
    unfolding lang_seq_Cons by (rule take_rpt)
  from k3 t3' have k4: "set t4 \<subseteq> ?K" by auto
  from t4 have "t4 \<in> lang (seq [rpt 2 (Cls ''0123456789'')])"
    unfolding lang_seq_Cons
    by (rule skip_opt_cls) (rule kept_no_separator(1) [OF k4])
  then obtain u4 t5 where t4': "t4 = u4 @ t5" and u4: "length u4 = 2" "set u4 \<subseteq> set ''0123456789''"
    and t5: "t5 \<in> lang (seq [])"
    unfolding lang_seq_Cons by (rule take_rpt)
  from t5 have t5': "t5 = []" by simp
  let ?ds = "u1 @ u2 @ u3 @ u4"
  have "s = p @ c # ?ds" using s t0' t1' t2' t3' t4' t5' by simp
  moreover have "length ?ds = 9" using u1 u2 u3 u4 by simp
  moreover have "set ?ds \<subseteq> set ''0123456789''" using u1 u2 u3 u4 by simp
  ultimately show ?thesis using p c by blast
qed

end
